theory Spec2Isabelle
  imports Complex_Main "HOL-Library.Word"
begin

section \<open>The form validator of js/navigation.js\<close>

text \<open>
  A shallow embedding of the Form Validator Module of
  \<^verbatim>\<open>lusk-cloud-landing-page/js/navigation.js\<close> (lines 541-659): the rule table
  \<^verbatim>\<open>validationRules\<close> and the functions \<^verbatim>\<open>validateEmail\<close>, \<^verbatim>\<open>validateField\<close> and
  \<^verbatim>\<open>validateForm\<close>.
\<close>

subsection \<open>JavaScript values\<close>

text \<open>
  A JavaScript string is a sequence of UTF-16 code units; \<^verbatim>\<open>length\<close> counts code units,
  and a regular expression without the \<^verbatim>\<open>u\<close> flag matches code unit by code unit.
\<close>

type_synonym code_unit = "16 word"
type_synonym jsstring = "code_unit list"

text \<open>A source literal, all of whose characters are ASCII, as a JavaScript string.\<close>

definition js_string :: "string \<Rightarrow> jsstring" where
  "js_string s = map (\<lambda>c. of_nat (of_char c)) s"

text \<open>
  The Number type, as far as the module observes it: the module only ever tests a number
  for truthiness (\<^verbatim>\<open>NaN\<close>, \<^verbatim>\<open>+0\<close> and \<^verbatim>\<open>-0\<close> are falsy, everything else is truthy).
\<close>

datatype jsnumber = NaN | Infinity bool | Finite real

text \<open>
  The values a caller can pass. \<open>JObject\<close> stands for any object, array or function:
  the module reads none of its properties.
\<close>

datatype jsval =
    JUndefined
  | JNull
  | JBoolean bool
  | JNumber jsnumber
  | JBigInt int
  | JString jsstring
  | JSymbol
  | JObject

text \<open>ToBoolean, used by \<^verbatim>\<open>||\<close>.\<close>

fun to_boolean :: "jsval \<Rightarrow> bool" where
  "to_boolean JUndefined = False"
| "to_boolean JNull = False"
| "to_boolean (JBoolean b) = b"
| "to_boolean (JNumber NaN) = False"
| "to_boolean (JNumber (Infinity _)) = True"
| "to_boolean (JNumber (Finite x)) = (x \<noteq> 0)"
| "to_boolean (JBigInt n) = (n \<noteq> 0)"
| "to_boolean (JString s) = (s \<noteq> [])"
| "to_boolean JSymbol = True"
| "to_boolean JObject = True"

subsection \<open>White space and \<^verbatim>\<open>String.prototype.trim\<close>\<close>

text \<open>
  The code units that \<^verbatim>\<open>trim\<close> strips and that \<^verbatim>\<open>\s\<close> matches: ECMAScript's WhiteSpace
  (TAB, VT, FF, ZWNBSP and the Unicode space separators) and LineTerminator
  (LF, CR, LS, PS) productions.
\<close>

definition is_white_space :: "code_unit \<Rightarrow> bool" where
  "is_white_space c \<longleftrightarrow>
     c = 0x0009 \<or> c = 0x000A \<or> c = 0x000B \<or> c = 0x000C \<or> c = 0x000D \<or> c = 0x0020 \<or>
     c = 0x00A0 \<or> c = 0x1680 \<or> (0x2000 \<le> c \<and> c \<le> 0x200A) \<or> c = 0x2028 \<or>
     c = 0x2029 \<or> c = 0x202F \<or> c = 0x205F \<or> c = 0x3000 \<or> c = 0xFEFF"

definition trim :: "jsstring \<Rightarrow> jsstring" where
  "trim s = rev (dropWhile is_white_space (rev (dropWhile is_white_space s)))"

subsection \<open>Regular expressions\<close>

text \<open>
  The fragment of the pattern syntax that the module's one regular expression,
  \<^verbatim>\<open>/^[^\s@]+@[^\s@]+\.[^\s@]+$/\<close>, is written in: a pattern is one alternative, a
  sequence of terms; a term is an assertion (\<^verbatim>\<open>^\<close>, \<^verbatim>\<open>$\<close>), an atom, or an atom under
  the greedy quantifier \<^verbatim>\<open>+\<close>; an atom is a pattern character (\<^verbatim>\<open>@\<close>, or the escaped
  \<^verbatim>\<open>\.\<close>) or a negated class \<^verbatim>\<open>[^...]\<close> of characters and \<^verbatim>\<open>\s\<close>.
\<close>

datatype class_atom = ClassChar code_unit | ClassSpace

datatype re_atom = PatternChar code_unit | NegatedClass "class_atom list"

datatype re_term = AssertStart | AssertEnd | Atom re_atom | AtomPlus re_atom

text \<open>
  A RegExp object: its pattern and its flags. Its \<^verbatim>\<open>lastIndex\<close> property, the one slot
  that \<^verbatim>\<open>test\<close> may write, is threaded through the functions below as their state.
\<close>

record regexp =
  source :: "re_term list"
  global :: bool
  sticky :: bool

fun class_atom_matches :: "class_atom \<Rightarrow> code_unit \<Rightarrow> bool" where
  "class_atom_matches (ClassChar c) x = (x = c)"
| "class_atom_matches ClassSpace x = is_white_space x"

fun atom_matches :: "re_atom \<Rightarrow> code_unit \<Rightarrow> bool" where
  "atom_matches (PatternChar c) x = (x = c)"
| "atom_matches (NegatedClass cs) x = (\<not> list_ex (\<lambda>a. class_atom_matches a x) cs)"

text \<open>The first alternative that succeeds, in the order tried.\<close>

fun first_some :: "'a option list \<Rightarrow> 'a option" where
  "first_some [] = None"
| "first_some (None # rest) = first_some rest"
| "first_some (Some e # rest) = Some e"

text \<open>
  The backtracking matcher: \<open>match_terms ts s i\<close> matches the terms \<open>ts\<close> against \<open>s\<close>
  from index \<open>i\<close> and returns the end index of the first match in backtracking order,
  or \<open>None\<close>. Without the \<^verbatim>\<open>m\<close> flag, \<^verbatim>\<open>^\<close> holds only at index 0 and \<^verbatim>\<open>$\<close> only at the
  end of the input. A greedy \<^verbatim>\<open>+\<close> first takes the longest run of matching code units and
  gives them back one by one, down to a single one.
\<close>

fun match_terms :: "re_term list \<Rightarrow> jsstring \<Rightarrow> nat \<Rightarrow> nat option" where
  "match_terms [] s i = Some i"
| "match_terms (AssertStart # ts) s i = (if i = 0 then match_terms ts s i else None)"
| "match_terms (AssertEnd # ts) s i = (if i = length s then match_terms ts s i else None)"
| "match_terms (Atom a # ts) s i =
     (if i < length s \<and> atom_matches a (s ! i) then match_terms ts s (Suc i) else None)"
| "match_terms (AtomPlus a # ts) s i =
     (let n = length (takeWhile (atom_matches a) (drop i s))
      in first_some (map (\<lambda>k. match_terms ts s (i + k)) (rev [1..<Suc n])))"

text \<open>
  RegExpBuiltinExec's search loop: try a match at \<open>i\<close>, then at \<open>i + 1\<close>, and so on up
  to the end of the input; a sticky expression tries only at \<open>i\<close>. The result is the
  end index of the match found.
\<close>

function exec_from :: "regexp \<Rightarrow> jsstring \<Rightarrow> nat \<Rightarrow> nat option" where
  "exec_from R s i =
     (if length s < i then None
      else case match_terms (source R) s i of
             Some e \<Rightarrow> Some e
           | None \<Rightarrow> if sticky R then None else exec_from R s (Suc i))"
  by pat_completeness auto
termination
  by (relation "measure (\<lambda>(R, s, i). Suc (length s) - i)") auto

declare exec_from.simps [simp del]

text \<open>
  \<^verbatim>\<open>RegExp.prototype.test\<close>: the verdict and the new \<^verbatim>\<open>lastIndex\<close>. The search starts at
  \<^verbatim>\<open>lastIndex\<close> when the expression is global or sticky and at 0 otherwise; only a
  global or sticky expression writes \<^verbatim>\<open>lastIndex\<close> (the end of the match, or 0 on
  failure).
\<close>

definition regexp_test :: "regexp \<Rightarrow> jsstring \<Rightarrow> nat \<Rightarrow> bool \<times> nat" where
  "regexp_test R s lastIndex =
     (let start = (if \<not> global R \<and> \<not> sticky R then 0 else lastIndex)
      in case exec_from R s start of
           None \<Rightarrow> (False, if global R \<or> sticky R then 0 else lastIndex)
         | Some e \<Rightarrow> (True, if global R \<or> sticky R then e else lastIndex))"

subsection \<open>The rule table\<close>

text \<open>
  One entry of \<^verbatim>\<open>validationRules\<close>. A property that the object literal does not have
  is \<open>None\<close>: reading it yields \<^verbatim>\<open>undefined\<close>.
\<close>

record rule =
  required :: "bool option"
  minLength :: "nat option"
  maxLength :: "nat option"
  pattern :: "regexp option"
  errorMessage :: "jsstring option"

definition email_pattern :: regexp where
  "email_pattern =
     \<lparr>source =
        [AssertStart,
         AtomPlus (NegatedClass [ClassSpace, ClassChar 0x40]),
         Atom (PatternChar 0x40),
         AtomPlus (NegatedClass [ClassSpace, ClassChar 0x40]),
         Atom (PatternChar 0x2E),
         AtomPlus (NegatedClass [ClassSpace, ClassChar 0x40]),
         AssertEnd],
      global = False, sticky = False\<rparr>"

definition validationRules :: "(jsstring \<times> rule) list" where
  "validationRules =
     [(js_string ''name'',
       \<lparr>required = Some True, minLength = Some 2, maxLength = Some 100, pattern = None,
        errorMessage = Some (js_string ''Please enter your name (2-100 characters)'')\<rparr>),
      (js_string ''email'',
       \<lparr>required = Some True, minLength = None, maxLength = None,
        pattern = Some email_pattern,
        errorMessage = Some (js_string ''Please enter a valid email address'')\<rparr>),
      (js_string ''message'',
       \<lparr>required = Some True, minLength = Some 10, maxLength = Some 1000, pattern = None,
        errorMessage = Some (js_string ''Please enter a message (10-1000 characters)'')\<rparr>)]"

text \<open>
  \<^verbatim>\<open>validationRules\<close> is an object literal, so \<^verbatim>\<open>validationRules[fieldName]\<close> also finds
  what the object inherits from \<^verbatim>\<open>Object.prototype\<close>. Each of these members is a truthy
  object (a function, or for \<^verbatim>\<open>__proto__\<close> the prototype itself) that has none of the
  five rule properties.
\<close>

definition object_prototype_keys :: "jsstring list" where
  "object_prototype_keys =
     map js_string
       [''constructor'', ''hasOwnProperty'', ''isPrototypeOf'', ''propertyIsEnumerable'',
        ''toLocaleString'', ''toString'', ''valueOf'', ''__proto__'',
        ''__defineGetter__'', ''__defineSetter__'', ''__lookupGetter__'',
        ''__lookupSetter__'']"

definition inherited_member :: rule where
  "inherited_member =
     \<lparr>required = None, minLength = None, maxLength = None, pattern = None,
      errorMessage = None\<rparr>"

text \<open>\<^verbatim>\<open>validationRules[fieldName]\<close>; \<open>None\<close> is \<^verbatim>\<open>undefined\<close>.\<close>

definition rules_lookup :: "jsstring \<Rightarrow> rule option" where
  "rules_lookup fieldName =
     (case map_of validationRules fieldName of
        Some rules \<Rightarrow> Some rules
      | None \<Rightarrow>
          if fieldName \<in> set object_prototype_keys then Some inherited_member else None)"

subsection \<open>validateEmail\<close>

text \<open>
  Every function takes the \<^verbatim>\<open>lastIndex\<close> of \<^verbatim>\<open>validationRules.email.pattern\<close>, the
  module's only mutable state, and returns it with its result.
\<close>

definition validateEmail :: "jsval \<Rightarrow> nat \<Rightarrow> bool \<times> nat" where
  "validateEmail email lastIndex =
     (case email of
        JString str \<Rightarrow>
          (let trimmedEmail = trim str
           in if trimmedEmail = [] then (False, lastIndex)
              else regexp_test email_pattern trimmedEmail lastIndex)
      | _ \<Rightarrow> (False, lastIndex))"

subsection \<open>validateField\<close>

text \<open>
  The result object \<^verbatim>\<open>{ isValid, errorMessage }\<close>. The failing branches return
  \<^verbatim>\<open>rules.errorMessage\<close> as it is read, so the component is a JavaScript value.
\<close>

record field_result =
  isValid :: bool
  errorMessage_of :: jsval

definition passed :: field_result where
  "passed = \<lparr>isValid = True, errorMessage_of = JString []\<rparr>"

definition failed :: "rule \<Rightarrow> field_result" where
  "failed rules =
     \<lparr>isValid = False,
      errorMessage_of = (case errorMessage rules of None \<Rightarrow> JUndefined | Some m \<Rightarrow> JString m)\<rparr>"

text \<open>\<^verbatim>\<open>rules.required\<close> as a condition: an absent property is falsy.\<close>

definition is_required :: "rule \<Rightarrow> bool" where
  "is_required rules = (case required rules of None \<Rightarrow> False | Some b \<Rightarrow> b)"

text \<open>
  \<^verbatim>\<open>rules.minLength && trimmedValue.length < rules.minLength\<close> and its \<^verbatim>\<open>maxLength\<close>
  twin: an absent bound and the bound 0 are falsy, so neither is checked.
\<close>

definition below_minLength :: "rule \<Rightarrow> jsstring \<Rightarrow> bool" where
  "below_minLength rules trimmedValue =
     (case minLength rules of None \<Rightarrow> False | Some m \<Rightarrow> m \<noteq> 0 \<and> length trimmedValue < m)"

definition above_maxLength :: "rule \<Rightarrow> jsstring \<Rightarrow> bool" where
  "above_maxLength rules trimmedValue =
     (case maxLength rules of None \<Rightarrow> False | Some m \<Rightarrow> m \<noteq> 0 \<and> m < length trimmedValue)"

definition validateField :: "jsstring \<Rightarrow> jsval \<Rightarrow> nat \<Rightarrow> field_result \<times> nat" where
  "validateField fieldName v lastIndex =
     (case rules_lookup fieldName of
        None \<Rightarrow> (passed, lastIndex)
      | Some rules \<Rightarrow>
          (let trimmedValue = (case v of JString str \<Rightarrow> trim str | _ \<Rightarrow> [])
           in if is_required rules \<and> trimmedValue = [] then (failed rules, lastIndex)
              else if \<not> is_required rules \<and> trimmedValue = [] then (passed, lastIndex)
              else
                (let (email_ok, lastIndex') =
                       (if fieldName = js_string ''email''
                        then validateEmail (JString trimmedValue) lastIndex
                        else (True, lastIndex))
                 in if \<not> email_ok then (failed rules, lastIndex')
                    else if below_minLength rules trimmedValue then (failed rules, lastIndex')
                    else if above_maxLength rules trimmedValue then (failed rules, lastIndex')
                    else (passed, lastIndex'))))"

subsection \<open>validateForm\<close>

text \<open>
  \<^verbatim>\<open>formData\<close> maps property names to values; reading a property it does not have
  yields \<^verbatim>\<open>undefined\<close>.
\<close>

type_synonym form_data = "jsstring \<rightharpoonup> jsval"

definition get_property :: "form_data \<Rightarrow> jsstring \<Rightarrow> jsval" where
  "get_property formData key = (case formData key of None \<Rightarrow> JUndefined | Some x \<Rightarrow> x)"

record form_result =
  form_isValid :: bool
  errors :: "jsstring \<rightharpoonup> jsval"

text \<open>
  The body of the \<^verbatim>\<open>for (const fieldName in validationRules)\<close> loop, over the keys still
  to visit; \<open>acc\<close> holds the variables \<^verbatim>\<open>isValid\<close> and \<^verbatim>\<open>errors\<close>.
\<close>

fun validateForm_loop ::
  "jsstring list \<Rightarrow> form_data \<Rightarrow> form_result \<Rightarrow> nat \<Rightarrow> form_result \<times> nat" where
  "validateForm_loop [] formData acc lastIndex = (acc, lastIndex)"
| "validateForm_loop (fieldName # rest) formData acc lastIndex =
     (let x = get_property formData fieldName;
          v = (if to_boolean x then x else JString []);
          (result, lastIndex') = validateField fieldName v lastIndex
      in if \<not> isValid result
         then validateForm_loop rest formData
                \<lparr>form_isValid = False,
                 errors = (errors acc)(fieldName \<mapsto> errorMessage_of result)\<rparr> lastIndex'
         else validateForm_loop rest formData acc lastIndex')"

text \<open>
  \<^verbatim>\<open>for ... in\<close> visits the own enumerable keys of \<^verbatim>\<open>validationRules\<close> in insertion
  order; \<^verbatim>\<open>Object.prototype\<close> has no enumerable property.
\<close>

definition validateForm :: "form_data \<Rightarrow> nat \<Rightarrow> form_result \<times> nat" where
  "validateForm formData lastIndex =
     validateForm_loop (map fst validationRules) formData
       \<lparr>form_isValid = True, errors = Map.empty\<rparr> lastIndex"

subsection \<open>The spec's description of the email pattern\<close>

text \<open>
  The spec (4.1) describes the strings the pattern accepts in words: exactly one \<^verbatim>\<open>@\<close>; a
  non-empty local part; a domain part that contains at least one \<^verbatim>\<open>.\<close> with non-empty
  segments around it; no whitespace anywhere. The definitions below follow these words,
  not the code. The local part is what precedes the first \<^verbatim>\<open>@\<close>, the domain part what
  follows it. The segments of the domain part are the pieces that its dots separate, as
  \<^verbatim>\<open>split(".")\<close> returns them: \<^verbatim>\<open>b..c\<close> has the segments \<^verbatim>\<open>b\<close>, the empty string and \<^verbatim>\<open>c\<close>.
  The segments around a dot are the segment that ends at it and the segment that starts
  after it.
\<close>

definition local_part :: "jsstring \<Rightarrow> jsstring" where
  "local_part s = takeWhile (\<lambda>c. c \<noteq> 0x40) s"

definition domain_part :: "jsstring \<Rightarrow> jsstring" where
  "domain_part s = drop 1 (dropWhile (\<lambda>c. c \<noteq> 0x40) s)"

fun dot_segments :: "jsstring \<Rightarrow> jsstring list" where
  "dot_segments [] = [[]]"
| "dot_segments (x # xs) =
     (if x = 0x2E then [] # dot_segments xs
      else case dot_segments xs of
             [] \<Rightarrow> [[x]]
           | seg # rest \<Rightarrow> (x # seg) # rest)"

text \<open>The pairs of segments around each dot, in order.\<close>

definition segments_around_dots :: "jsstring \<Rightarrow> (jsstring \<times> jsstring) list" where
  "segments_around_dots d = zip (dot_segments d) (drop 1 (dot_segments d))"

definition spec_email_format :: "jsstring \<Rightarrow> bool" where
  "spec_email_format s \<longleftrightarrow>
     count_list s 0x40 = 1 \<and>
     local_part s \<noteq> [] \<and>
     list_ex (\<lambda>(before, after). before \<noteq> [] \<and> after \<noteq> []) (segments_around_dots (domain_part s)) \<and>
     \<not> list_ex is_white_space s"

text \<open>
  The description that the pattern does satisfy differs in the third condition only: the
  domain part contains at least one \<^verbatim>\<open>.\<close> that has non-empty text before it and non-empty
  text after it within the domain part, that is, a \<^verbatim>\<open>.\<close> that is neither its first nor its
  last character. The text on either side may itself contain dots.
\<close>

definition text_around_dots :: "jsstring \<Rightarrow> (jsstring \<times> jsstring) list" where
  "text_around_dots d =
     map (\<lambda>i. (take i d, drop (Suc i) d)) (filter (\<lambda>i. d ! i = 0x2E) [0..<length d])"

definition amended_email_format :: "jsstring \<Rightarrow> bool" where
  "amended_email_format s \<longleftrightarrow>
     count_list s 0x40 = 1 \<and>
     local_part s \<noteq> [] \<and>
     list_ex (\<lambda>(before, after). before \<noteq> [] \<and> after \<noteq> []) (text_around_dots (domain_part s)) \<and>
     \<not> list_ex is_white_space s"

subsection \<open>What a sequence of terms matches\<close>

text \<open>
  A declarative reading of a sequence of terms without \<^verbatim>\<open>^\<close>, used to reason about the
  backtracking matcher: \<open>terms_match ts w\<close> holds when the terms match a prefix of the
  rest \<open>w\<close> of the input (all of it, where \<^verbatim>\<open>$\<close> is asserted).
\<close>

fun terms_match :: "re_term list \<Rightarrow> jsstring \<Rightarrow> bool" where
  "terms_match [] w = True"
| "terms_match (AssertStart # ts) w = False"
| "terms_match (AssertEnd # ts) w = (w = [] \<and> terms_match ts w)"
| "terms_match (Atom a # ts) w =
     (case w of [] \<Rightarrow> False | x # w' \<Rightarrow> atom_matches a x \<and> terms_match ts w')"
| "terms_match (AtomPlus a # ts) w =
     (\<exists>k. 0 < k \<and> k \<le> length w \<and> (\<forall>x\<in>set (take k w). atom_matches a x) \<and>
          terms_match ts (drop k w))"

section \<open>Properties\<close>

subsection \<open>String literals and the rule table\<close>

lemma code_unit_of_char_inj:
  "(of_nat (of_char c) :: code_unit) = of_nat (of_char d) \<longleftrightarrow> c = d"
proof
  assume h: "(of_nat (of_char c) :: code_unit) = of_nat (of_char d)"
  have b: "(of_char x :: nat) < 2 ^ 16" for x :: char
  proof -
    have "(of_char x :: nat) = of_char x mod 256" by simp
    also have "\<dots> < 256" by (rule mod_less_divisor) simp
    finally have "(of_char x :: nat) < 256" .
    also have "(256::nat) < 2 ^ 16" by simp
    finally show ?thesis .
  qed
  from h have "take_bit LENGTH(16) (of_char c :: nat) = take_bit LENGTH(16) (of_char d :: nat)"
    by (simp only: word_of_nat_eq_iff)
  then have "take_bit 16 (of_char c :: nat) = take_bit 16 (of_char d :: nat)"
    by simp
  moreover have "take_bit 16 (of_char c :: nat) = of_char c"
    by (rule take_bit_nat_eq_self [OF b])
  moreover have "take_bit 16 (of_char d :: nat) = of_char d"
    by (rule take_bit_nat_eq_self [OF b])
  ultimately have "(of_char c :: nat) = of_char d"
    by (simp only:)
  then show "c = d" by (rule of_char_eqI)
qed simp

lemma js_string_eq_iff [simp]: "js_string a = js_string b \<longleftrightarrow> a = b"
proof -
  have "inj (\<lambda>c::char. (of_nat (of_char c) :: code_unit))"
    by (rule injI) (simp only: code_unit_of_char_inj)
  then show ?thesis
    unfolding js_string_def by (rule inj_map_eq_map)
qed

lemma js_string_Nil [simp]: "js_string [] = []"
  by (simp add: js_string_def)

lemma js_string_eq_Nil [simp]: "js_string a = [] \<longleftrightarrow> a = []"
  by (simp add: js_string_def)

lemma rules_lookup_name:
  "rules_lookup (js_string ''name'') = Some
     \<lparr>required = Some True, minLength = Some 2, maxLength = Some 100, pattern = None,
      errorMessage = Some (js_string ''Please enter your name (2-100 characters)'')\<rparr>"
  by (simp add: rules_lookup_def validationRules_def)

lemma rules_lookup_email:
  "rules_lookup (js_string ''email'') = Some
     \<lparr>required = Some True, minLength = None, maxLength = None,
      pattern = Some email_pattern,
      errorMessage = Some (js_string ''Please enter a valid email address'')\<rparr>"
  by (simp add: rules_lookup_def validationRules_def)

lemma rules_lookup_message:
  "rules_lookup (js_string ''message'') = Some
     \<lparr>required = Some True, minLength = Some 10, maxLength = Some 1000, pattern = None,
      errorMessage = Some (js_string ''Please enter a message (10-1000 characters)'')\<rparr>"
  by (simp add: rules_lookup_def validationRules_def)

lemma rules_lookup_other:
  "f \<noteq> js_string ''name'' \<Longrightarrow> f \<noteq> js_string ''email'' \<Longrightarrow> f \<noteq> js_string ''message'' \<Longrightarrow>
   rules_lookup f = None \<or> rules_lookup f = Some inherited_member"
  by (simp add: rules_lookup_def validationRules_def)

subsection \<open>The pattern's flags: \<^verbatim>\<open>test\<close> never writes \<^verbatim>\<open>lastIndex\<close>\<close>

lemma match_email_pos: "0 < i \<Longrightarrow> match_terms (source email_pattern) s i = None"
  by (simp add: email_pattern_def)

lemma exec_from_email_pos: "0 < i \<Longrightarrow> exec_from email_pattern s i = None"
proof (induction "Suc (length s) - i" arbitrary: i)
  case 0
  then have "length s < i" by simp
  then show ?case by (subst exec_from.simps) simp
next
  case (Suc n)
  from Suc.hyps(2) have "n = Suc (length s) - Suc i" by simp
  moreover have "0 < Suc i" by simp
  ultimately have ih: "exec_from email_pattern s (Suc i) = None" by (rule Suc.hyps(1))
  have st: "\<not> sticky email_pattern" by (simp add: email_pattern_def)
  show ?case
    by (subst exec_from.simps) (simp only: match_email_pos [OF Suc.prems] ih st option.case if_False if_cancel)
qed

lemma exec_from_email_0:
  "exec_from email_pattern s 0 = match_terms (source email_pattern) s 0"
proof -
  have st: "\<not> sticky email_pattern" by (simp add: email_pattern_def)
  have ih: "exec_from email_pattern s (Suc 0) = None" by (rule exec_from_email_pos) simp
  show ?thesis
    by (subst exec_from.simps) (simp add: st ih split: option.split)
qed

lemma regexp_test_email:
  "regexp_test email_pattern s lastIndex =
     (match_terms (source email_pattern) s 0 \<noteq> None, lastIndex)"
proof -
  have fl: "\<not> global email_pattern" "\<not> sticky email_pattern"
    by (simp_all add: email_pattern_def)
  show ?thesis
    unfolding regexp_test_def Let_def
    by (simp only: fl exec_from_email_0 simp_thms if_True if_False) (simp split: option.split)
qed

lemma validateEmail_state: "snd (validateEmail v lastIndex) = lastIndex"
  by (cases v) (simp_all add: validateEmail_def Let_def regexp_test_email)

lemma validateField_state: "snd (validateField f v lastIndex) = lastIndex"
proof -
  have e: "validateEmail x lastIndex = (fst (validateEmail x lastIndex), lastIndex)" for x
    using validateEmail_state [of x lastIndex] by (metis prod.collapse)
  show ?thesis
    unfolding validateField_def Let_def
    by (subst e) (simp split: option.split)
qed

subsection \<open>Trimming\<close>

lemma trim_Nil [simp]: "trim [] = []"
  by (simp add: trim_def)

lemma trim_fixed:
  assumes "s = [] \<or> (\<not> is_white_space (hd s) \<and> \<not> is_white_space (last s))"
  shows "trim s = s"
proof (cases "s = []")
  case True
  then show ?thesis by simp
next
  case False
  with assms have h: "\<not> is_white_space (hd s)" and l: "\<not> is_white_space (last s)" by simp_all
  from h have "dropWhile is_white_space s = s" by (simp add: dropWhile_eq_self_iff)
  moreover from False l have "dropWhile is_white_space (rev s) = rev s"
    by (simp add: dropWhile_eq_self_iff hd_rev)
  ultimately show ?thesis by (simp add: trim_def)
qed

lemma last_dropWhile_eq: "dropWhile P xs \<noteq> [] \<Longrightarrow> last (dropWhile P xs) = last xs"
proof -
  assume a: "dropWhile P xs \<noteq> []"
  have "last xs = last (takeWhile P xs @ dropWhile P xs)" by simp
  also have "\<dots> = last (dropWhile P xs)" using a by (rule last_appendR)
  finally show ?thesis by simp
qed

lemma trim_ends:
  "trim s = [] \<or> (\<not> is_white_space (hd (trim s)) \<and> \<not> is_white_space (last (trim s)))"
proof (cases "trim s = []")
  case True
  then show ?thesis by simp
next
  case False
  define t where "t = dropWhile is_white_space s"
  define u where "u = dropWhile is_white_space (rev t)"
  have tr: "trim s = rev u" by (simp add: trim_def t_def u_def)
  with False have u: "u \<noteq> []" by simp
  then have t: "t \<noteq> []" by (auto simp: u_def)
  from u have "\<not> is_white_space (hd u)" unfolding u_def by (rule hd_dropWhile)
  then have 1: "\<not> is_white_space (last (trim s))" using u by (simp add: tr last_rev)
  have "last u = last (rev t)" using u unfolding u_def by (rule last_dropWhile_eq)
  also have "\<dots> = hd t" using t by (simp add: last_rev)
  finally have "hd (trim s) = hd t" using u by (simp add: tr hd_rev)
  moreover have "\<not> is_white_space (hd t)" using t unfolding t_def by (rule hd_dropWhile)
  ultimately show ?thesis using 1 by simp
qed

lemma trim_idem: "trim (trim s) = trim s"
  by (rule trim_fixed) (rule trim_ends)

lemma trim_pad_left:
  assumes "\<forall>c\<in>set p. is_white_space c"
  shows "trim (p @ s) = trim s"
proof -
  have "dropWhile is_white_space (p @ s) = dropWhile is_white_space s"
    by (rule dropWhile_append2) (use assms in simp)
  then show ?thesis by (simp only: trim_def)
qed

lemma trim_pad_right:
  assumes "\<forall>c\<in>set q. is_white_space c"
  shows "trim (s @ q) = trim s"
proof (cases "\<forall>c\<in>set s. is_white_space c")
  case True
  with assms have a: "dropWhile is_white_space (s @ q) = []" "dropWhile is_white_space s = []"
    by (simp_all add: dropWhile_eq_Nil_conv)
  show ?thesis unfolding trim_def a by simp
next
  case False
  then have a: "dropWhile is_white_space (s @ q) = dropWhile is_white_space s @ q"
    by (auto simp: dropWhile_append1)
  have b: "dropWhile is_white_space (rev q @ ys) = dropWhile is_white_space ys" for ys
    by (rule dropWhile_append2) (use assms in simp)
  show ?thesis unfolding trim_def a rev_append b by simp
qed

lemma trim_pad:
  "\<forall>c\<in>set p. is_white_space c \<Longrightarrow> \<forall>c\<in>set q. is_white_space c \<Longrightarrow> trim (p @ v @ q) = trim v"
  by (simp add: trim_pad_left trim_pad_right)

lemma trim_replicate: "\<not> is_white_space c \<Longrightarrow> trim (replicate n c) = replicate n c"
  by (rule trim_fixed) (cases n; simp)

subsection \<open>validateField on fields without a rule\<close>

lemma validateEmail_eq:
  "validateEmail v lastIndex = (fst (validateEmail v lastIndex), lastIndex)"
  using validateEmail_state [of v lastIndex] by (metis prod.collapse)

lemma is_required_inherited [simp]: "\<not> is_required inherited_member"
  by (simp add: is_required_def inherited_member_def)

lemma below_minLength_inherited [simp]: "\<not> below_minLength inherited_member t"
  by (simp add: below_minLength_def inherited_member_def)

lemma above_maxLength_inherited [simp]: "\<not> above_maxLength inherited_member t"
  by (simp add: above_maxLength_def inherited_member_def)

lemma validateField_no_rule:
  assumes "fieldName \<noteq> js_string ''name''" and "fieldName \<noteq> js_string ''email''"
    and "fieldName \<noteq> js_string ''message''"
  shows "validateField fieldName v lastIndex =
           (\<lparr>isValid = True, errorMessage_of = JString []\<rparr>, lastIndex)"
proof -
  from assms have "rules_lookup fieldName = None \<or> rules_lookup fieldName = Some inherited_member"
    by (rule rules_lookup_other)
  then show ?thesis
  proof
    assume "rules_lookup fieldName = None"
    then show ?thesis by (simp add: validateField_def passed_def)
  next
    assume "rules_lookup fieldName = Some inherited_member"
    then show ?thesis using assms(2) by (simp add: validateField_def passed_def Let_def)
  qed
qed

subsection \<open>validateEmail and validateField on the three fields of the table\<close>

lemma validateEmail_string:
  "validateEmail (JString s) lastIndex =
     (trim s \<noteq> [] \<and> match_terms (source email_pattern) (trim s) 0 \<noteq> None, lastIndex)"
  by (simp add: validateEmail_def Let_def regexp_test_email)

lemma validateEmail_non_string:
  "(\<And>s. v \<noteq> JString s) \<Longrightarrow> validateEmail v lastIndex = (False, lastIndex)"
  by (cases v) (auto simp add: validateEmail_def)

lemma validateEmail_trimmed:
  "validateEmail (JString (trim s)) lastIndex = validateEmail (JString s) lastIndex"
  by (simp add: validateEmail_string trim_idem)

lemma validateField_name_trimmed:
  "validateField (js_string ''name'') v lastIndex =
     (let t = (case v of JString str \<Rightarrow> trim str | _ \<Rightarrow> [])
      in if 2 \<le> length t \<and> length t \<le> 100
         then \<lparr>isValid = True, errorMessage_of = JString []\<rparr>
         else \<lparr>isValid = False,
               errorMessage_of = JString (js_string ''Please enter your name (2-100 characters)'')\<rparr>,
      lastIndex)"
  by (auto simp add: validateField_def rules_lookup_name Let_def is_required_def
      below_minLength_def above_maxLength_def passed_def failed_def)

lemma validateField_message_trimmed:
  "validateField (js_string ''message'') v lastIndex =
     (let t = (case v of JString str \<Rightarrow> trim str | _ \<Rightarrow> [])
      in if 10 \<le> length t \<and> length t \<le> 1000
         then \<lparr>isValid = True, errorMessage_of = JString []\<rparr>
         else \<lparr>isValid = False,
               errorMessage_of = JString (js_string ''Please enter a message (10-1000 characters)'')\<rparr>,
      lastIndex)"
  by (auto simp add: validateField_def rules_lookup_message Let_def is_required_def
      below_minLength_def above_maxLength_def passed_def failed_def)

lemma validateField_email_verdict:
  "validateField (js_string ''email'') v lastIndex =
     (if fst (validateEmail v lastIndex)
      then \<lparr>isValid = True, errorMessage_of = JString []\<rparr>
      else \<lparr>isValid = False,
            errorMessage_of = JString (js_string ''Please enter a valid email address'')\<rparr>,
      lastIndex)"
proof (cases "\<exists>s. v = JString s")
  case True
  then obtain s where v: "v = JString s" by blast
  show ?thesis
    unfolding v validateField_def rules_lookup_email
    by (simp add: Let_def is_required_def below_minLength_def above_maxLength_def
        passed_def failed_def validateEmail_string trim_idem)
next
  case False
  then have ns: "\<And>s. v \<noteq> JString s" by blast
  then have t: "(case v of JString str \<Rightarrow> trim str | _ \<Rightarrow> []) = []"
    by (cases v) auto
  show ?thesis
    unfolding validateField_def rules_lookup_email
    by (simp add: t Let_def is_required_def failed_def validateEmail_non_string [OF ns])
qed

subsection \<open>The backtracking matcher and what it matches\<close>

lemma first_some_eq_None_iff: "first_some xs = None \<longleftrightarrow> (\<forall>x\<in>set xs. x = None)"
  by (induction xs rule: first_some.induct) auto

lemma first_some_eq_SomeD: "first_some xs = Some e \<Longrightarrow> Some e \<in> set xs"
  by (induction xs rule: first_some.induct) auto

lemma first_some_mapD: "first_some (map f xs) = Some e \<Longrightarrow> \<exists>x. f x = Some e"
proof (induction xs)
  case Nil
  then show ?case by simp
next
  case (Cons x xs)
  then show ?case by (cases "f x") auto
qed

lemma le_length_takeWhile_iff:
  "k \<le> length (takeWhile P w) \<longleftrightarrow> k \<le> length w \<and> (\<forall>x\<in>set (take k w). P x)"
proof (induction w arbitrary: k)
  case Nil
  then show ?case by simp
next
  case (Cons x w)
  show ?case
  proof (cases k)
    case 0
    then show ?thesis by simp
  next
    case (Suc j)
    then show ?thesis using Cons.IH [of j] by simp
  qed
qed

lemma match_plus_iff:
  "match_terms (AtomPlus a # ts) s i \<noteq> None \<longleftrightarrow>
     (\<exists>k. 0 < k \<and> k \<le> length (takeWhile (atom_matches a) (drop i s)) \<and>
          match_terms ts s (i + k) \<noteq> None)"
proof -
  have "set (rev [1..<Suc n]) = {k. 0 < k \<and> k \<le> n}" for n
    by auto
  then show ?thesis
    by (simp add: Let_def first_some_eq_None_iff del: upt_Suc)
qed

lemma match_terms_iff:
  "AssertStart \<notin> set ts \<Longrightarrow> i \<le> length s \<Longrightarrow>
   (match_terms ts s i \<noteq> None) = terms_match ts (drop i s)"
proof (induction ts arbitrary: i)
  case Nil
  then show ?case by simp
next
  case (Cons t ts)
  then have ns: "AssertStart \<notin> set ts" by simp
  show ?case
  proof (cases t)
    case AssertStart
    with Cons.prems show ?thesis by simp
  next
    case AssertEnd
    show ?thesis
    proof (cases "i = length s")
      case True
      with Cons.IH [OF ns, of i] AssertEnd show ?thesis by simp
    next
      case False
      with Cons.prems(2) AssertEnd show ?thesis by simp
    qed
  next
    case (Atom a)
    show ?thesis
    proof (cases "i < length s")
      case True
      then have d: "drop i s = s ! i # drop (Suc i) s" by (simp add: Cons_nth_drop_Suc)
      from True have "Suc i \<le> length s" by simp
      from Cons.IH [OF ns this] Atom True show ?thesis by (simp add: d)
    next
      case False
      with Atom show ?thesis by simp
    qed
  next
    case (AtomPlus a)
    have "(k \<le> length (takeWhile (atom_matches a) (drop i s)) \<and> match_terms ts s (i + k) \<noteq> None) =
          (k \<le> length (drop i s) \<and> (\<forall>x\<in>set (take k (drop i s)). atom_matches a x) \<and>
             terms_match ts (drop k (drop i s)))" for k
    proof (cases "k \<le> length (drop i s)")
      case True
      with Cons.prems(2) have "i + k \<le> length s" by simp
      from Cons.IH [OF ns this] show ?thesis
        by (simp add: le_length_takeWhile_iff add.commute)
    next
      case False
      then show ?thesis by (simp add: le_length_takeWhile_iff)
    qed
    then show ?thesis
      unfolding AtomPlus match_plus_iff terms_match.simps by simp
  qed
qed

lemma match_terms_end:
  "match_terms ts s i = Some e \<Longrightarrow> ts \<noteq> [] \<Longrightarrow> last ts = AssertEnd \<Longrightarrow> e = length s"
proof (induction ts arbitrary: i)
  case Nil
  then show ?case by simp
next
  case (Cons t ts)
  show ?case
  proof (cases "ts = []")
    case True
    with Cons.prems show ?thesis by (simp split: if_splits)
  next
    case False
    with Cons.prems(3) have l: "last ts = AssertEnd" by simp
    have "\<exists>j. match_terms ts s j = Some e"
    proof (cases t)
      case (AtomPlus a)
      from Cons.prems(1) have "\<exists>k. match_terms ts s (i + k) = Some e"
        unfolding AtomPlus match_terms.simps Let_def
        by (rule first_some_mapD [where f = "\<lambda>k. match_terms ts s (i + k)"])
      then show ?thesis by blast
    qed (use Cons.prems(1) in \<open>auto split: if_splits\<close>)
    then obtain j where "match_terms ts s j = Some e" ..
    then show ?thesis using False l by (rule Cons.IH)
  qed
qed

lemma regexp_test_email_anchored:
  "regexp_test email_pattern t lastIndex =
     (match_terms (source email_pattern) t 0 = Some (length t), lastIndex)"
proof -
  have "e = length t" if "match_terms (source email_pattern) t 0 = Some e" for e
    using that by (rule match_terms_end) (simp_all add: email_pattern_def)
  then have "(match_terms (source email_pattern) t 0 \<noteq> None) =
             (match_terms (source email_pattern) t 0 = Some (length t))"
    by auto
  then show ?thesis by (simp only: regexp_test_email)
qed

lemma match_email_example:
  "match_terms (source email_pattern) (js_string ''a@b.co'') 0 = Some 6"
  by (simp add: email_pattern_def js_string_def is_white_space_def)

lemma not_white_space_A: "\<not> is_white_space 0x41"
  by (simp add: is_white_space_def)

subsection \<open>The shape of a field result\<close>

lemma validateField_shape:
  "(errorMessage_of (fst (validateField fieldName v lastIndex)) = JString [] \<longleftrightarrow>
      isValid (fst (validateField fieldName v lastIndex))) \<and>
   (\<not> isValid (fst (validateField fieldName v lastIndex)) \<longrightarrow>
      (\<exists>rules m. map_of validationRules fieldName = Some rules \<and>
         errorMessage rules = Some m \<and> m \<noteq> [] \<and>
         errorMessage_of (fst (validateField fieldName v lastIndex)) = JString m))"
proof -
  consider (name) "fieldName = js_string ''name''" | (email) "fieldName = js_string ''email''"
    | (message) "fieldName = js_string ''message''"
    | (other) "fieldName \<noteq> js_string ''name''" "fieldName \<noteq> js_string ''email''"
        "fieldName \<noteq> js_string ''message''"
    by blast
  then show ?thesis
  proof cases
    case name
    show ?thesis unfolding name
      by (simp add: validateField_name_trimmed Let_def validationRules_def)
  next
    case email
    show ?thesis unfolding email
      by (simp add: validateField_email_verdict validationRules_def)
  next
    case message
    show ?thesis unfolding message
      by (simp add: validateField_message_trimmed Let_def validationRules_def)
  next
    case other
    then show ?thesis by (simp add: validateField_no_rule)
  qed
qed

subsection \<open>Independence of \<^verbatim>\<open>lastIndex\<close>, and validateForm\<close>

lemma validateEmail_indep:
  "validateEmail v lastIndex = (fst (validateEmail v 0), lastIndex)"
proof (cases "\<exists>s. v = JString s")
  case True
  then show ?thesis by (auto simp: validateEmail_string)
next
  case False
  then show ?thesis by (simp add: validateEmail_non_string)
qed

lemma validateField_fst_indep:
  "fst (validateField f v lastIndex) = fst (validateField f v lastIndex')"
proof -
  consider (name) "f = js_string ''name''" | (email) "f = js_string ''email''"
    | (message) "f = js_string ''message''"
    | (other) "f \<noteq> js_string ''name''" "f \<noteq> js_string ''email''" "f \<noteq> js_string ''message''"
    by blast
  then show ?thesis
  proof cases
    case name
    show ?thesis unfolding name by (simp add: validateField_name_trimmed)
  next
    case email
    have "fst (validateEmail v lastIndex) = fst (validateEmail v lastIndex')"
      by (simp add: validateEmail_indep [of v lastIndex] validateEmail_indep [of v lastIndex'])
    then show ?thesis unfolding email by (simp add: validateField_email_verdict)
  next
    case message
    show ?thesis unfolding message by (simp add: validateField_message_trimmed)
  next
    case other
    then show ?thesis by (simp add: validateField_no_rule)
  qed
qed

lemma validateField_pair:
  "validateField f v lastIndex = (fst (validateField f v lastIndex), lastIndex)"
  using validateField_state [of f v lastIndex] by (metis prod.collapse)

lemma validateField_falsy:
  "\<not> to_boolean x \<Longrightarrow> validateField f x lastIndex = validateField f (JString []) lastIndex"
proof -
  assume "\<not> to_boolean x"
  then have "(case x of JString str \<Rightarrow> trim str | _ \<Rightarrow> []) = []"
    by (cases x) simp_all
  moreover have "(case JString [] of JString str \<Rightarrow> trim str | _ \<Rightarrow> []) = []"
    by simp
  ultimately show ?thesis
    by (simp only: validateField_def)
qed

lemma validateField_indep:
  "validateField f v lastIndex = (fst (validateField f v 0), lastIndex)"
  by (subst validateField_pair) (simp add: validateField_fst_indep [of f v lastIndex 0])

lemma validateForm_loop_Cons:
  "validateForm_loop (k # ks) fd acc lastIndex =
     (let x = get_property fd k;
          v = (if to_boolean x then x else JString []);
          result = fst (validateField k v 0)
      in if \<not> isValid result
         then validateForm_loop ks fd
                \<lparr>form_isValid = False, errors = (errors acc)(k \<mapsto> errorMessage_of result)\<rparr>
                lastIndex
         else validateForm_loop ks fd acc lastIndex)"
  by (simp add: Let_def validateField_indep [of _ _ lastIndex])

lemma validateForm_loop_indep:
  "validateForm_loop ks fd acc lastIndex = (fst (validateForm_loop ks fd acc 0), lastIndex)"
proof (induction ks arbitrary: acc)
  case Nil
  then show ?case by simp
next
  case (Cons k ks)
  show ?case
    unfolding validateForm_loop_Cons [of k ks fd acc lastIndex]
      validateForm_loop_Cons [of k ks fd acc 0] Let_def
    by (simp add: Cons.IH [symmetric])
qed

lemma validateForm_loop_cong:
  "\<forall>k\<in>set ks. fd1 k = fd2 k \<Longrightarrow>
   validateForm_loop ks fd1 acc lastIndex = validateForm_loop ks fd2 acc lastIndex"
proof (induction ks arbitrary: acc lastIndex)
  case Nil
  then show ?case by simp
next
  case (Cons k ks)
  then have "get_property fd1 k = get_property fd2 k" and "\<forall>k\<in>set ks. fd1 k = fd2 k"
    by (simp_all add: get_property_def)
  then show ?case using Cons.IH by (simp add: Let_def split: prod.split)
qed


lemma field_verdict:
  "fst (validateField k (if to_boolean x then x else JString []) 0) =
   fst (validateField k x lastIndex)"
proof (cases "to_boolean x")
  case True
  then show ?thesis by (simp add: validateField_fst_indep [of k x 0 lastIndex])
next
  case False
  then show ?thesis
    by (simp add: validateField_falsy [OF False, symmetric] validateField_fst_indep [of k x 0 lastIndex])
qed

lemma validateForm_loop_step:
  "validateForm_loop (k # ks) fd acc lastIndex =
     (let result = fst (validateField k (get_property fd k) lastIndex)
      in if \<not> isValid result
         then validateForm_loop ks fd
                \<lparr>form_isValid = False, errors = (errors acc)(k \<mapsto> errorMessage_of result)\<rparr>
                lastIndex
         else validateForm_loop ks fd acc lastIndex)"
  by (simp only: validateForm_loop_Cons Let_def field_verdict [of k _ lastIndex])

lemma validateForm_result:
  "validateForm fd lastIndex =
     (let rn = fst (validateField (js_string ''name'') (get_property fd (js_string ''name'')) lastIndex);
          re = fst (validateField (js_string ''email'') (get_property fd (js_string ''email'')) lastIndex);
          rm = fst (validateField (js_string ''message'') (get_property fd (js_string ''message'')) lastIndex)
      in (\<lparr>form_isValid = isValid rn \<and> isValid re \<and> isValid rm,
           errors = (\<lambda>k. if k = js_string ''message'' \<and> \<not> isValid rm then Some (errorMessage_of rm)
                         else if k = js_string ''email'' \<and> \<not> isValid re then Some (errorMessage_of re)
                         else if k = js_string ''name'' \<and> \<not> isValid rn then Some (errorMessage_of rn)
                         else None)\<rparr>, lastIndex))"
  unfolding validateForm_def validationRules_def list.map fst_conv validateForm_loop_step
    validateForm_loop.simps(1) Let_def
  by (auto simp add: fun_eq_iff)


lemma validateForm_fst_indep:
  "fst (validateForm fd lastIndex) = fst (validateForm fd lastIndex')"
  unfolding validateForm_def
  by (simp add: validateForm_loop_indep [of _ _ _ lastIndex] validateForm_loop_indep [of _ _ _ lastIndex'])

lemma validateForm_state: "snd (validateForm fd lastIndex) = lastIndex"
  unfolding validateForm_def
  by (simp add: validateForm_loop_indep [of _ _ _ lastIndex])

lemma global_flag_test_is_stateful:
  "regexp_test (email_pattern\<lparr>global := True\<rparr>) (js_string ''a@b.co'') 0 = (True, 6) \<and>
   regexp_test (email_pattern\<lparr>global := True\<rparr>) (js_string ''a@b.co'') 6 = (False, 0)"
  by (simp add: regexp_test_def exec_from.simps email_pattern_def js_string_def is_white_space_def)

lemma length_js_string [simp]: "length (js_string s) = length s"
  by (simp add: js_string_def)

lemma trim_Jo: "trim (js_string ''Jo'') = js_string ''Jo''"
  by (simp add: trim_def js_string_def is_white_space_def)

lemma trim_email_example: "trim (js_string ''a@b.co'') = js_string ''a@b.co''"
  by (simp add: trim_def js_string_def is_white_space_def)

subsection \<open>The pattern and the spec's description of it\<close>

lemma terms_match_plus_iff:
  "terms_match (AtomPlus a # ts) w \<longleftrightarrow>
     (\<exists>u w'. w = u @ w' \<and> u \<noteq> [] \<and> (\<forall>x\<in>set u. atom_matches a x) \<and> terms_match ts w')"
proof
  assume "terms_match (AtomPlus a # ts) w"
  then obtain k where k: "0 < k" "k \<le> length w" "\<forall>x\<in>set (take k w). atom_matches a x"
    "terms_match ts (drop k w)"
    by auto
  have "w = take k w @ drop k w" by simp
  moreover from k have "take k w \<noteq> []" by auto
  ultimately show "\<exists>u w'. w = u @ w' \<and> u \<noteq> [] \<and> (\<forall>x\<in>set u. atom_matches a x) \<and> terms_match ts w'"
    using k by blast
next
  assume "\<exists>u w'. w = u @ w' \<and> u \<noteq> [] \<and> (\<forall>x\<in>set u. atom_matches a x) \<and> terms_match ts w'"
  then obtain u w' where u: "w = u @ w'" "u \<noteq> []" "\<forall>x\<in>set u. atom_matches a x" "terms_match ts w'"
    by blast
  then have "0 < length u \<and> length u \<le> length w \<and> (\<forall>x\<in>set (take (length u) w). atom_matches a x) \<and>
      terms_match ts (drop (length u) w)"
    by simp
  then show "terms_match (AtomPlus a # ts) w"
    unfolding terms_match.simps by blast
qed

lemma terms_match_atom_iff:
  "terms_match (Atom a # ts) w \<longleftrightarrow> (\<exists>x w'. w = x # w' \<and> atom_matches a x \<and> terms_match ts w')"
  by (cases w) simp_all

lemma part_char_iff:
  "atom_matches (NegatedClass [ClassSpace, ClassChar 0x40]) x \<longleftrightarrow> \<not> is_white_space x \<and> x \<noteq> 0x40"
  by simp

lemma email_pattern_accepts_iff:
  "match_terms (source email_pattern) s 0 \<noteq> None \<longleftrightarrow>
     (\<exists>L A B. s = L @ 0x40 # A @ 0x2E # B \<and> L \<noteq> [] \<and> A \<noteq> [] \<and> B \<noteq> [] \<and>
        (\<forall>x\<in>set L \<union> set A \<union> set B. \<not> is_white_space x \<and> x \<noteq> 0x40))"
proof -
  define N where "N = NegatedClass [ClassSpace, ClassChar 0x40]"
  define rest where "rest = [AtomPlus N, Atom (PatternChar 0x40), AtomPlus N, Atom (PatternChar 0x2E),
     AtomPlus N, AssertEnd]"
  have N: "atom_matches N x \<longleftrightarrow> \<not> is_white_space x \<and> x \<noteq> 0x40" for x
    by (simp add: N_def)
  have src: "source email_pattern = AssertStart # rest"
    by (simp add: email_pattern_def rest_def N_def)
  have "match_terms (source email_pattern) s 0 = match_terms rest s 0"
    by (simp add: src)
  moreover have "(match_terms rest s 0 \<noteq> None) = terms_match rest (drop 0 s)"
    by (rule match_terms_iff) (simp_all add: rest_def)
  ultimately have 1: "match_terms (source email_pattern) s 0 \<noteq> None \<longleftrightarrow> terms_match rest s"
    by simp
  have e: "terms_match [AssertEnd] w \<longleftrightarrow> w = []" for w by simp
  have 2: "terms_match rest s \<longleftrightarrow>
     (\<exists>L w1. s = L @ w1 \<and> L \<noteq> [] \<and> (\<forall>x\<in>set L. atom_matches N x) \<and>
       (\<exists>x1 w2. w1 = x1 # w2 \<and> x1 = 0x40 \<and>
         (\<exists>A w3. w2 = A @ w3 \<and> A \<noteq> [] \<and> (\<forall>x\<in>set A. atom_matches N x) \<and>
           (\<exists>x2 w4. w3 = x2 # w4 \<and> x2 = 0x2E \<and>
             (\<exists>B w5. w4 = B @ w5 \<and> B \<noteq> [] \<and> (\<forall>x\<in>set B. atom_matches N x) \<and> w5 = [])))))"
    unfolding rest_def terms_match_plus_iff terms_match_atom_iff e atom_matches.simps(1) ..
  show ?thesis
    unfolding 1 2 N by (auto; blast)
qed


lemma dot_indices: "set (filter (\<lambda>i. d ! i = (0x2E::code_unit)) [0..<length d]) = {i. i < length d \<and> d ! i = 0x2E}"
  by (simp only: set_filter set_upt atLeastLessThan_iff) simp

lemma text_around_dots_ex:
  "list_ex (\<lambda>(before, after). before \<noteq> [] \<and> after \<noteq> []) (text_around_dots d) \<longleftrightarrow>
     (\<exists>i<length d. d ! i = 0x2E \<and> take i d \<noteq> [] \<and> drop (Suc i) d \<noteq> [])"
  unfolding list_ex_iff text_around_dots_def set_map dot_indices bex_simps(7) mem_Collect_eq prod.case
  by blast

lemma inner_dot_iff:
  "list_ex (\<lambda>(before, after). before \<noteq> [] \<and> after \<noteq> []) (text_around_dots d) \<longleftrightarrow>
     (\<exists>A B. d = A @ 0x2E # B \<and> A \<noteq> [] \<and> B \<noteq> [])"
proof
  assume "list_ex (\<lambda>(before, after). before \<noteq> [] \<and> after \<noteq> []) (text_around_dots d)"
  then obtain i where i: "i < length d" "d ! i = 0x2E" "take i d \<noteq> []" "drop (Suc i) d \<noteq> []"
    unfolding text_around_dots_ex by blast
  from i(1) have "d = take i d @ d ! i # drop (Suc i) d" by (rule id_take_nth_drop)
  with i show "\<exists>A B. d = A @ 0x2E # B \<and> A \<noteq> [] \<and> B \<noteq> []" by metis
next
  assume "\<exists>A B. d = A @ 0x2E # B \<and> A \<noteq> [] \<and> B \<noteq> []"
  then obtain A B where d: "d = A @ 0x2E # B" "A \<noteq> []" "B \<noteq> []" by blast
  then have "length A < length d" "d ! length A = 0x2E" "take (length A) d \<noteq> []"
    "drop (Suc (length A)) d \<noteq> []"
    by simp_all
  then show "list_ex (\<lambda>(before, after). before \<noteq> [] \<and> after \<noteq> []) (text_around_dots d)"
    unfolding text_around_dots_ex by blast
qed

lemma not_white_space_at: "\<not> is_white_space 0x40"
  by (simp add: is_white_space_def)

lemma not_white_space_dot: "\<not> is_white_space 0x2E"
  by (simp add: is_white_space_def)

lemma amended_email_format_iff:
  "amended_email_format s \<longleftrightarrow>
     (\<exists>L A B. s = L @ 0x40 # A @ 0x2E # B \<and> L \<noteq> [] \<and> A \<noteq> [] \<and> B \<noteq> [] \<and>
        (\<forall>x\<in>set L \<union> set A \<union> set B. \<not> is_white_space x \<and> x \<noteq> 0x40))"
proof
  assume sp: "amended_email_format s"
  then have one: "count_list s 0x40 = 1" and lp: "local_part s \<noteq> []"
    and ws: "\<forall>x\<in>set s. \<not> is_white_space x"
    by (simp_all add: amended_email_format_def list_ex_iff)
  from sp have dd: "\<exists>A B. domain_part s = A @ 0x2E # B \<and> A \<noteq> [] \<and> B \<noteq> []"
    unfolding amended_email_format_def inner_dot_iff by blast
  define L where "L = local_part s"
  define D where "D = domain_part s"
  from one have "0x40 \<in> set s" by (metis count_list_0_iff zero_neq_one)
  then have dw: "dropWhile (\<lambda>c. c \<noteq> 0x40) s \<noteq> []" by (simp add: dropWhile_eq_Nil_conv)
  then have "hd (dropWhile (\<lambda>c. c \<noteq> 0x40) s) = 0x40" using hd_dropWhile [OF dw] by simp
  with dw have dwe: "dropWhile (\<lambda>c. c \<noteq> 0x40) s = 0x40 # D"
    unfolding D_def domain_part_def by (cases "dropWhile (\<lambda>c. c \<noteq> 0x40) s") simp_all
  have "s = takeWhile (\<lambda>c. c \<noteq> 0x40) s @ dropWhile (\<lambda>c. c \<noteq> 0x40) s" by simp
  then have s: "s = L @ 0x40 # D" unfolding L_def local_part_def dwe .
  have aL: "0x40 \<notin> set L" unfolding L_def local_part_def by (auto dest: set_takeWhileD)
  then have "count_list L 0x40 = 0" by (simp add: count_list_0_iff)
  with one s have "count_list D 0x40 = 0" by simp
  then have aD: "0x40 \<notin> set D" by (simp add: count_list_0_iff)
  from dd obtain A B where D: "D = A @ 0x2E # B" "A \<noteq> []" "B \<noteq> []" unfolding D_def by blast
  have "s = L @ 0x40 # A @ 0x2E # B" using s D by simp
  moreover have "L \<noteq> []" using lp by (simp add: L_def)
  moreover have "\<forall>x\<in>set L \<union> set A \<union> set B. \<not> is_white_space x \<and> x \<noteq> 0x40"
    using ws aL aD s D by auto
  ultimately show "\<exists>L A B. s = L @ 0x40 # A @ 0x2E # B \<and> L \<noteq> [] \<and> A \<noteq> [] \<and> B \<noteq> [] \<and>
        (\<forall>x\<in>set L \<union> set A \<union> set B. \<not> is_white_space x \<and> x \<noteq> 0x40)"
    using D by blast
next
  assume "\<exists>L A B. s = L @ 0x40 # A @ 0x2E # B \<and> L \<noteq> [] \<and> A \<noteq> [] \<and> B \<noteq> [] \<and>
        (\<forall>x\<in>set L \<union> set A \<union> set B. \<not> is_white_space x \<and> x \<noteq> 0x40)"
  then obtain L A B where s: "s = L @ 0x40 # A @ 0x2E # B" and ne: "L \<noteq> []" "A \<noteq> []" "B \<noteq> []"
    and ok: "\<forall>x\<in>set L \<union> set A \<union> set B. \<not> is_white_space x \<and> x \<noteq> 0x40"
    by blast
  from ok have c0: "count_list L 0x40 = 0" "count_list A 0x40 = 0" "count_list B 0x40 = 0"
    by (simp_all add: count_list_0_iff) blast+
  have one: "count_list s 0x40 = 1" unfolding s by (simp add: c0)
  from ok have nl: "\<And>x. x \<in> set L \<Longrightarrow> x \<noteq> 0x40" by blast
  have tw: "takeWhile (\<lambda>c. c \<noteq> 0x40) s = L"
    unfolding s by (simp add: takeWhile_append2 nl)
  have dw: "dropWhile (\<lambda>c. c \<noteq> 0x40) s = 0x40 # A @ 0x2E # B"
    unfolding s using nl by (simp add: dropWhile_append2)
  have lp: "local_part s \<noteq> []" by (simp add: local_part_def tw ne)
  have dp: "domain_part s = A @ 0x2E # B" by (simp add: domain_part_def dw)
  have dd: "list_ex (\<lambda>(before, after). before \<noteq> [] \<and> after \<noteq> [])
      (text_around_dots (domain_part s))"
    unfolding inner_dot_iff dp using ne by blast
  have ws: "\<not> list_ex is_white_space s"
    unfolding s list_ex_iff using ok not_white_space_at not_white_space_dot by auto
  from one lp dd ws show "amended_email_format s" by (simp add: amended_email_format_def)
qed


lemma email_pattern_amended:
  "fst (regexp_test email_pattern s lastIndex) \<longleftrightarrow> amended_email_format s"
  by (simp only: regexp_test_email fst_conv email_pattern_accepts_iff amended_email_format_iff)


lemma trim_double_dot_example: "trim (js_string ''a@b..c'') = js_string ''a@b..c''"
  by (simp add: trim_def js_string_def is_white_space_def)

lemma trim_no_dot_example: "trim (js_string ''a@b'') = js_string ''a@b''"
  by (simp add: trim_def js_string_def is_white_space_def)

lemma test_email_example: "fst (regexp_test email_pattern (js_string ''a@b.co'') 0)"
  by (simp add: regexp_test_email match_email_example)

lemma match_double_dot_example:
  "match_terms (source email_pattern) (js_string ''a@b..c'') 0 = Some 6"
  by (simp add: email_pattern_def js_string_def is_white_space_def)

lemma match_no_dot_example:
  "match_terms (source email_pattern) (js_string ''a@b'') 0 = None"
  by (simp add: email_pattern_def js_string_def is_white_space_def)

lemma test_double_dot_example: "fst (regexp_test email_pattern (js_string ''a@b..c'') 0)"
  by (simp add: regexp_test_email match_double_dot_example)

lemma test_no_dot_example: "\<not> fst (regexp_test email_pattern (js_string ''a@b'') 0)"
  by (simp add: regexp_test_email match_no_dot_example)

subsection \<open>The spec's wording against the amended one\<close>

lemma dot_segments_not_Nil [simp]: "dot_segments d \<noteq> []"
  by (induction d) (auto split: list.splits)

lemma dot_segments_first:
  "dot_segments xs = seg # rest \<Longrightarrow> rest \<noteq> [] \<Longrightarrow>
   \<exists>tail. xs = seg @ 0x2E # tail \<and> dot_segments tail = rest"
proof (induction xs arbitrary: seg)
  case Nil
  then show ?case by simp
next
  case (Cons x xs)
  show ?case
  proof (cases "x = 0x2E")
    case True
    with Cons.prems show ?thesis by simp
  next
    case False
    obtain seg' rest' where d: "dot_segments xs = seg' # rest'"
      by (cases "dot_segments xs") simp_all
    with False Cons.prems have e: "seg = x # seg'" "rest = rest'" by simp_all
    with d have "dot_segments xs = seg' # rest" by simp
    from Cons.IH [OF this Cons.prems(2)]
    obtain tail where "xs = seg' @ 0x2E # tail" "dot_segments tail = rest" by blast
    with e show ?thesis by simp
  qed
qed

lemma segments_around_dots_inner:
  "list_ex (\<lambda>(before, after). before \<noteq> [] \<and> after \<noteq> []) (segments_around_dots d) \<Longrightarrow>
   \<exists>A B. d = A @ 0x2E # B \<and> A \<noteq> [] \<and> B \<noteq> []"
proof (induction d)
  case Nil
  then show ?case by (simp add: segments_around_dots_def)
next
  case (Cons x xs)
  obtain seg rest where d: "dot_segments xs = seg # rest"
    by (cases "dot_segments xs") simp_all
  show ?case
  proof (cases "x = 0x2E")
    case True
    with Cons.prems d have "list_ex (\<lambda>(before, after). before \<noteq> [] \<and> after \<noteq> []) (segments_around_dots xs)"
      by (simp add: segments_around_dots_def)
    from Cons.IH [OF this] obtain A B where "xs = A @ 0x2E # B" "A \<noteq> []" "B \<noteq> []" by blast
    then have "x # xs = (x # A) @ 0x2E # B \<and> x # A \<noteq> [] \<and> B \<noteq> []" by simp
    then show ?thesis by blast
  next
    case False
    show ?thesis
    proof (cases rest)
      case Nil
      with Cons.prems d False show ?thesis by (simp add: segments_around_dots_def)
    next
      case (Cons r rest')
      show ?thesis
      proof (cases "r \<noteq> []")
        case True
        from d Cons obtain tail where t: "xs = seg @ 0x2E # tail" "dot_segments tail = r # rest'"
          using dot_segments_first [of xs seg rest] by auto
        from t(2) True have "tail \<noteq> []" by auto
        with t(1) have "x # xs = (x # seg) @ 0x2E # tail \<and> x # seg \<noteq> [] \<and> tail \<noteq> []" by simp
        then show ?thesis by blast
      next
        case False
        with Cons.prems d Cons \<open>x \<noteq> 0x2E\<close>
        have "list_ex (\<lambda>(before, after). before \<noteq> [] \<and> after \<noteq> []) (segments_around_dots xs)"
          by (simp add: segments_around_dots_def)
        from Cons.IH [OF this] obtain A B where "xs = A @ 0x2E # B" "A \<noteq> []" "B \<noteq> []" by blast
        then have "x # xs = (x # A) @ 0x2E # B \<and> x # A \<noteq> [] \<and> B \<noteq> []" by simp
        then show ?thesis by blast
      qed
    qed
  qed
qed

lemma spec_email_format_imp_amended:
  "spec_email_format s \<Longrightarrow> amended_email_format s"
  unfolding spec_email_format_def amended_email_format_def inner_dot_iff
  by (blast dest: segments_around_dots_inner)

lemma spec_email_format_accepted:
  "spec_email_format s \<Longrightarrow> fst (regexp_test email_pattern s lastIndex)"
  by (simp add: email_pattern_amended spec_email_format_imp_amended)

lemma spec_email_format_double_dot: "\<not> spec_email_format (js_string ''a@b..c'')"
  by (simp add: spec_email_format_def domain_part_def segments_around_dots_def js_string_def)

lemma spec_email_format_example: "spec_email_format (js_string ''a@b.co'')"
  by (simp add: spec_email_format_def local_part_def domain_part_def segments_around_dots_def
      js_string_def is_white_space_def)

section \<open>The claims\<close>

text \<open>
  Claim C1. For every string \<open>v\<close>, \<^verbatim>\<open>validateField("name", v)\<close> is valid exactly when the
  length of the trimmed value is between 2 and 100 inclusive, and
  \<^verbatim>\<open>validateField("message", v)\<close> exactly when it is between 10 and 1000 inclusive; every
  failing result carries the field's one fixed message of the rule table. Both boundaries
  are valid.
\<close>

theorem validateField_name_message_length:
  "validateField (js_string ''name'') (JString v) lastIndex =
     (if 2 \<le> length (trim v) \<and> length (trim v) \<le> 100
      then \<lparr>isValid = True, errorMessage_of = JString []\<rparr>
      else \<lparr>isValid = False,
            errorMessage_of = JString (js_string ''Please enter your name (2-100 characters)'')\<rparr>,
      lastIndex) \<and>
   validateField (js_string ''message'') (JString v) lastIndex =
     (if 10 \<le> length (trim v) \<and> length (trim v) \<le> 1000
      then \<lparr>isValid = True, errorMessage_of = JString []\<rparr>
      else \<lparr>isValid = False,
            errorMessage_of = JString (js_string ''Please enter a message (10-1000 characters)'')\<rparr>,
      lastIndex)"
  by (simp add: validateField_name_trimmed validateField_message_trimmed Let_def)

theorem validateField_name_message_length_witness:
  "isValid (fst (validateField (js_string ''name'') (JString (replicate 2 0x41)) 0)) \<and>
   isValid (fst (validateField (js_string ''name'') (JString (replicate 100 0x41)) 0)) \<and>
   validateField (js_string ''name'') (JString (replicate 1 0x41)) 0 =
     (\<lparr>isValid = False,
       errorMessage_of = JString (js_string ''Please enter your name (2-100 characters)'')\<rparr>, 0) \<and>
   \<not> isValid (fst (validateField (js_string ''name'') (JString (replicate 101 0x41)) 0)) \<and>
   isValid (fst (validateField (js_string ''message'') (JString (replicate 10 0x41)) 0)) \<and>
   isValid (fst (validateField (js_string ''message'') (JString (replicate 1000 0x41)) 0)) \<and>
   \<not> isValid (fst (validateField (js_string ''message'') (JString (replicate 9 0x41)) 0)) \<and>
   validateField (js_string ''message'') (JString (replicate 1001 0x41)) 0 =
     (\<lparr>isValid = False,
       errorMessage_of = JString (js_string ''Please enter a message (10-1000 characters)'')\<rparr>, 0)"
  using validateField_name_message_length [of "replicate 2 0x41" 0]
    validateField_name_message_length [of "replicate 100 0x41" 0]
    validateField_name_message_length [of "replicate 1 0x41" 0]
    validateField_name_message_length [of "replicate 101 0x41" 0]
    validateField_name_message_length [of "replicate 10 0x41" 0]
    validateField_name_message_length [of "replicate 1000 0x41" 0]
    validateField_name_message_length [of "replicate 9 0x41" 0]
    validateField_name_message_length [of "replicate 1001 0x41" 0]
  by (simp add: trim_replicate [OF not_white_space_A] trim_fixed not_white_space_A)

text \<open>
  Claim C3. \<^verbatim>\<open>validateEmail(x)\<close> returns false when \<open>x\<close> is not a string; when \<open>x\<close> is a
  string it returns false if trimming leaves the empty string, and otherwise the result
  of testing the trimmed string against the pattern, which is anchored at both ends: the
  test succeeds exactly when the pattern matches from index 0 to the end of the trimmed
  string. No case writes \<^verbatim>\<open>lastIndex\<close>.
\<close>

theorem validateEmail_cases:
  "((\<forall>s. x \<noteq> JString s) \<longrightarrow> validateEmail x lastIndex = (False, lastIndex)) \<and>
   (\<forall>s. x = JString s \<and> trim s = [] \<longrightarrow> validateEmail x lastIndex = (False, lastIndex)) \<and>
   (\<forall>s. x = JString s \<and> trim s \<noteq> [] \<longrightarrow>
      validateEmail x lastIndex = regexp_test email_pattern (trim s) lastIndex \<and>
      validateEmail x lastIndex =
        (match_terms (source email_pattern) (trim s) 0 = Some (length (trim s)), lastIndex))"
proof (intro conjI allI impI)
  assume "\<forall>s. x \<noteq> JString s"
  then show "validateEmail x lastIndex = (False, lastIndex)"
    by (simp add: validateEmail_non_string)
next
  fix s assume "x = JString s \<and> trim s = []"
  then show "validateEmail x lastIndex = (False, lastIndex)"
    by (simp add: validateEmail_def)
next
  fix s assume a: "x = JString s \<and> trim s \<noteq> []"
  then show t: "validateEmail x lastIndex = regexp_test email_pattern (trim s) lastIndex"
    by (simp add: validateEmail_def)
  show "validateEmail x lastIndex =
        (match_terms (source email_pattern) (trim s) 0 = Some (length (trim s)), lastIndex)"
    unfolding t by (rule regexp_test_email_anchored)
qed

theorem validateEmail_cases_witness:
  "validateEmail JNull 3 = (False, 3) \<and>
   validateEmail (JNumber (Finite 42)) 3 = (False, 3) \<and>
   validateEmail (JString [0x20, 0x09]) 3 = (False, 3) \<and>
   validateEmail (JString (0x20 # js_string ''a@b.co'')) 3 = (True, 3)"
proof -
  have 1: "validateEmail JNull 3 = (False, 3)"
    using validateEmail_cases [of JNull 3] by simp
  have 2: "validateEmail (JNumber (Finite 42)) 3 = (False, 3)"
    using validateEmail_cases [of "JNumber (Finite 42)" 3] by simp
  have t3: "trim [0x20, 0x09] = []"
    by (simp add: trim_def is_white_space_def)
  have 3: "validateEmail (JString [0x20, 0x09]) 3 = (False, 3)"
    using validateEmail_cases [of "JString [0x20, 0x09]" 3] t3 by simp
  have t4: "trim (0x20 # js_string ''a@b.co'') = js_string ''a@b.co''"
    by (simp add: trim_def is_white_space_def js_string_def)
  have "trim (0x20 # js_string ''a@b.co'') \<noteq> []"
    by (simp add: t4)
  with validateEmail_cases [of "JString (0x20 # js_string ''a@b.co'')" 3]
  have "validateEmail (JString (0x20 # js_string ''a@b.co'')) 3 =
          (match_terms (source email_pattern) (trim (0x20 # js_string ''a@b.co'')) 0 =
             Some (length (trim (0x20 # js_string ''a@b.co''))), 3)"
    by blast
  then have 4: "validateEmail (JString (0x20 # js_string ''a@b.co'')) 3 = (True, 3)"
    unfolding t4 match_email_example by (simp add: js_string_def)
  from 1 2 3 4 show ?thesis by (intro conjI)
qed

text \<open>
  Claim C4, as amended. For every non-empty trimmed string \<open>s\<close>, the pattern that
  \<^verbatim>\<open>validateEmail\<close> tests accepts \<open>s\<close> if and only if \<open>s\<close> contains exactly one \<^verbatim>\<open>@\<close>, has a
  non-empty local part before it, has a domain part after it that contains at least one
  \<^verbatim>\<open>.\<close> with non-empty text before it and after it within the domain part (a \<^verbatim>\<open>.\<close> that is
  neither the first nor the last character of the domain part), and contains no white
  space.

  As the spec words the third condition, a \<^verbatim>\<open>.\<close> with non-empty segments around it, the
  equivalence fails from left to right: the pattern accepts \<^verbatim>\<open>a@b..c\<close>, in which each
  dot has the empty segment on one side (\<open>email_pattern_spec_description_counterexample\<close>
  below). From right to left it holds as worded (\<open>spec_email_format_accepted\<close>).
\<close>

theorem email_pattern_matches_amended_description:
  assumes "s \<noteq> []" and "trim s = s"
  shows "fst (regexp_test email_pattern s lastIndex) \<longleftrightarrow> amended_email_format s"
  by (rule email_pattern_amended)

theorem email_pattern_matches_amended_description_witness:
  "js_string ''a@b.co'' \<noteq> [] \<and> trim (js_string ''a@b.co'') = js_string ''a@b.co'' \<and>
   fst (regexp_test email_pattern (js_string ''a@b.co'') 0) \<and> amended_email_format (js_string ''a@b.co'') \<and>
   js_string ''a@b..c'' \<noteq> [] \<and> trim (js_string ''a@b..c'') = js_string ''a@b..c'' \<and>
   fst (regexp_test email_pattern (js_string ''a@b..c'') 0) \<and> amended_email_format (js_string ''a@b..c'') \<and>
   js_string ''a@b'' \<noteq> [] \<and> trim (js_string ''a@b'') = js_string ''a@b'' \<and>
   \<not> fst (regexp_test email_pattern (js_string ''a@b'') 0) \<and> \<not> amended_email_format (js_string ''a@b'')"
proof -
  have n1: "js_string ''a@b.co'' \<noteq> []" and n2: "js_string ''a@b..c'' \<noteq> []"
    and n3: "js_string ''a@b'' \<noteq> []"
    by simp_all
  note t1 = trim_email_example and t2 = trim_double_dot_example and t3 = trim_no_dot_example
  from email_pattern_matches_amended_description [OF n1 t1, of 0] test_email_example
  have s1: "amended_email_format (js_string ''a@b.co'')" by simp
  from email_pattern_matches_amended_description [OF n2 t2, of 0] test_double_dot_example
  have s2: "amended_email_format (js_string ''a@b..c'')" by simp
  from email_pattern_matches_amended_description [OF n3 t3, of 0] test_no_dot_example
  have s3: "\<not> amended_email_format (js_string ''a@b'')" by simp
  show ?thesis
    by (intro conjI n1 n2 n3 t1 t2 t3 s1 s2 s3 test_email_example test_double_dot_example
        test_no_dot_example)
qed

text \<open>
  The string \<^verbatim>\<open>a@b..c\<close> is non-empty and trimmed, the pattern accepts it, and it does not
  fit the spec's description: its domain part \<^verbatim>\<open>b..c\<close> has the segments \<^verbatim>\<open>b\<close>, the empty
  string and \<^verbatim>\<open>c\<close>.
\<close>

theorem email_pattern_spec_description_counterexample:
  "js_string ''a@b..c'' \<noteq> [] \<and> trim (js_string ''a@b..c'') = js_string ''a@b..c'' \<and>
   fst (regexp_test email_pattern (js_string ''a@b..c'') 0) \<and>
   \<not> spec_email_format (js_string ''a@b..c'')"
  by (simp add: trim_double_dot_example test_double_dot_example spec_email_format_double_dot)

text \<open>
  Claim C5. For every string \<open>v\<close> and all strings \<open>p\<close> and \<open>q\<close> of white space,
  \<^verbatim>\<open>validateField(field, p + v + q)\<close> returns the same result (the same \<^verbatim>\<open>isValid\<close> and
  the same \<^verbatim>\<open>errorMessage\<close>) as \<^verbatim>\<open>validateField(field, v)\<close>. This holds for every field
  name, so in particular for \<^verbatim>\<open>name\<close>, \<^verbatim>\<open>email\<close> and \<^verbatim>\<open>message\<close>.
\<close>

theorem validateField_whitespace_padding:
  assumes "\<forall>c\<in>set p. is_white_space c" and "\<forall>c\<in>set q. is_white_space c"
  shows "validateField fieldName (JString (p @ v @ q)) lastIndex =
         validateField fieldName (JString v) lastIndex"
  by (simp only: validateField_def jsval.case trim_pad [OF assms])

theorem validateField_whitespace_padding_witness:
  "is_white_space 0x20 \<and> is_white_space 0x09 \<and> is_white_space 0x0A \<and> is_white_space 0x2028 \<and>
   validateField (js_string ''email'') (JString ([0x20, 0x09] @ js_string ''a@b.co'' @ [0x0A, 0x2028])) 0 =
     validateField (js_string ''email'') (JString (js_string ''a@b.co'')) 0 \<and>
   validateField (js_string ''name'') (JString ([0x20, 0x09] @ js_string ''Jo'' @ [0x0A, 0x2028])) 0 =
     validateField (js_string ''name'') (JString (js_string ''Jo'')) 0 \<and>
   validateField (js_string ''message'') (JString ([0x20, 0x09] @ js_string ''Hello there'' @ [0x0A, 0x2028])) 0 =
     validateField (js_string ''message'') (JString (js_string ''Hello there'')) 0"
proof -
  have w: "is_white_space 0x20" "is_white_space 0x09" "is_white_space 0x0A" "is_white_space 0x2028"
    by (simp_all add: is_white_space_def)
  from w have p: "\<forall>c\<in>set [0x20, 0x09]. is_white_space c"
    by simp
  from w have q: "\<forall>c\<in>set [0x0A, 0x2028]. is_white_space c"
    by simp
  show ?thesis
    by (intro conjI w validateField_whitespace_padding [OF p q])
qed

text \<open>
  Claim C6. Every result of \<^verbatim>\<open>validateField\<close>, for every field name and every value,
  has the empty string as its \<^verbatim>\<open>errorMessage\<close> if and only if its \<^verbatim>\<open>isValid\<close> is true; a
  failing result carries the non-empty fixed message of the field's rule.
\<close>

theorem validateField_result_shape:
  "(errorMessage_of (fst (validateField fieldName v lastIndex)) = JString [] \<longleftrightarrow>
      isValid (fst (validateField fieldName v lastIndex))) \<and>
   (\<not> isValid (fst (validateField fieldName v lastIndex)) \<longrightarrow>
      (\<exists>rules m. map_of validationRules fieldName = Some rules \<and>
         errorMessage rules = Some m \<and> m \<noteq> [] \<and>
         errorMessage_of (fst (validateField fieldName v lastIndex)) = JString m))"
  by (rule validateField_shape)

theorem validateField_result_shape_witness:
  "\<not> isValid (fst (validateField (js_string ''name'') (JString [0x4A]) 0)) \<and>
   errorMessage_of (fst (validateField (js_string ''name'') (JString [0x4A]) 0)) =
     JString (js_string ''Please enter your name (2-100 characters)'') \<and>
   errorMessage_of (fst (validateField (js_string ''name'') (JString [0x4A]) 0)) \<noteq> JString []"
proof -
  have inv: "\<not> isValid (fst (validateField (js_string ''name'') (JString [0x4A]) 0))"
    by (simp add: validateField_name_trimmed trim_fixed is_white_space_def Let_def)
  from inv validateField_result_shape [of "js_string ''name''" "JString [0x4A]" 0]
  show ?thesis by (auto simp: validationRules_def)
qed

text \<open>
  Claim C7. For every field name that has no entry in the rule table (any name other than
  \<^verbatim>\<open>name\<close>, \<^verbatim>\<open>email\<close>, \<^verbatim>\<open>message\<close>) and every value of any type, \<^verbatim>\<open>validateField\<close>
  returns \<^verbatim>\<open>{isValid: true, errorMessage: ""}\<close>: unknown fields are never rejected. This
  includes the names that \<^verbatim>\<open>validationRules\<close> inherits from \<^verbatim>\<open>Object.prototype\<close>, for
  which the lookup is truthy but carries no rule property.
\<close>

theorem validateField_unknown_field:
  assumes "fieldName \<noteq> js_string ''name''" and "fieldName \<noteq> js_string ''email''"
    and "fieldName \<noteq> js_string ''message''"
  shows "validateField fieldName v lastIndex =
           (\<lparr>isValid = True, errorMessage_of = JString []\<rparr>, lastIndex)"
  using assms by (rule validateField_no_rule)

theorem validateField_unknown_field_witness:
  "validateField (js_string ''toString'') (JString (js_string ''x'')) 0 =
     (\<lparr>isValid = True, errorMessage_of = JString []\<rparr>, 0) \<and>
   validateField (js_string ''phone'') JNull 7 =
     (\<lparr>isValid = True, errorMessage_of = JString []\<rparr>, 7)"
  using validateField_unknown_field [of "js_string ''toString''" "JString (js_string ''x'')" 0]
    validateField_unknown_field [of "js_string ''phone''" JNull 7]
  by simp

text \<open>
  Claim C9. For every input \<open>v\<close> of any type, \<^verbatim>\<open>validateField("email", v).isValid\<close> equals
  \<^verbatim>\<open>validateEmail(v)\<close>.
\<close>

theorem validateField_email_agrees_with_validateEmail:
  "isValid (fst (validateField (js_string ''email'') v lastIndex)) = fst (validateEmail v lastIndex)"
  by (simp add: validateField_email_verdict)

text \<open>
  Claim C2. For every \<^verbatim>\<open>formData\<close>, \<^verbatim>\<open>validateForm(formData).isValid\<close> is true if and only
  if each field of the rule table (\<^verbatim>\<open>name\<close>, \<^verbatim>\<open>email\<close>, \<^verbatim>\<open>message\<close>) passes
  \<^verbatim>\<open>validateField\<close> on its own; \<^verbatim>\<open>errors\<close> has an entry, the field's fixed message, for
  exactly the fields that fail and no other entry, so \<^verbatim>\<open>isValid\<close> holds iff \<^verbatim>\<open>errors\<close> is
  empty; a field that \<^verbatim>\<open>formData\<close> does not have is validated as the empty string.
\<close>

theorem validateForm_aggregates_fields:
  "let R = fst (validateForm fd lastIndex);
       V = (\<lambda>f. fst (validateField f (get_property fd f) lastIndex));
       T = {js_string ''name'', js_string ''email'', js_string ''message''}
   in (form_isValid R \<longleftrightarrow> (\<forall>f\<in>T. isValid (V f))) \<and>
      (\<forall>f. errors R f = (if f \<in> T \<and> \<not> isValid (V f) then Some (errorMessage_of (V f)) else None)) \<and>
      (\<forall>f\<in>T. \<not> isValid (V f) \<longrightarrow>
         (\<exists>rules m. map_of validationRules f = Some rules \<and> errorMessage rules = Some m \<and>
            errors R f = Some (JString m))) \<and>
      (form_isValid R \<longleftrightarrow> errors R = Map.empty) \<and>
      (\<forall>f. fd f = None \<longrightarrow> V f = fst (validateField f (JString []) lastIndex))"
proof -
  define R where "R = fst (validateForm fd lastIndex)"
  define V where "V = (\<lambda>f. fst (validateField f (get_property fd f) lastIndex))"
  define T where "T = {js_string ''name'', js_string ''email'', js_string ''message''}"
  have iv: "form_isValid R \<longleftrightarrow> (\<forall>f\<in>T. isValid (V f))"
    by (simp add: R_def V_def T_def validateForm_result Let_def)
  have er: "errors R f = (if f \<in> T \<and> \<not> isValid (V f) then Some (errorMessage_of (V f)) else None)" for f
    by (auto simp add: R_def V_def T_def validateForm_result Let_def)
  have fx: "\<exists>rules m. map_of validationRules f = Some rules \<and> errorMessage rules = Some m \<and>
            errors R f = Some (JString m)" if "f \<in> T" "\<not> isValid (V f)" for f
  proof -
    from that(2) validateField_shape [of f "get_property fd f" lastIndex]
    obtain rules m where "map_of validationRules f = Some rules" "errorMessage rules = Some m"
      "errorMessage_of (V f) = JString m"
      unfolding V_def by blast
    with that er [of f] show ?thesis by simp
  qed
  have em: "form_isValid R \<longleftrightarrow> errors R = Map.empty"
  proof
    assume "form_isValid R"
    with iv have "\<forall>f\<in>T. isValid (V f)" by simp
    then show "errors R = Map.empty" by (auto simp: fun_eq_iff er)
  next
    assume e: "errors R = Map.empty"
    have "isValid (V f)" if "f \<in> T" for f
    proof (rule ccontr)
      assume "\<not> isValid (V f)"
      with that er [of f] have "errors R f \<noteq> None" by simp
      with e show False by simp
    qed
    with iv show "form_isValid R" by simp
  qed
  have ab: "V f = fst (validateField f (JString []) lastIndex)" if "fd f = None" for f
  proof -
    from that have "get_property fd f = JUndefined" by (simp add: get_property_def)
    then show ?thesis unfolding V_def by (simp add: validateField_falsy [of JUndefined])
  qed
  from iv er fx em ab show ?thesis
    unfolding Let_def R_def [symmetric] V_def [symmetric] T_def [symmetric] by blast
qed

theorem validateForm_aggregates_fields_witness:
  "\<not> form_isValid (fst (validateForm
       [js_string ''name'' \<mapsto> JString (js_string ''Jo''),
        js_string ''email'' \<mapsto> JString (js_string ''a@b.co''),
        js_string ''phone'' \<mapsto> JString (js_string ''x'')] 0)) \<and>
   errors (fst (validateForm
       [js_string ''name'' \<mapsto> JString (js_string ''Jo''),
        js_string ''email'' \<mapsto> JString (js_string ''a@b.co''),
        js_string ''phone'' \<mapsto> JString (js_string ''x'')] 0)) =
     [js_string ''message'' \<mapsto> JString (js_string ''Please enter a message (10-1000 characters)'')]"
proof -
  define fd where "fd = [js_string ''name'' \<mapsto> JString (js_string ''Jo''),
        js_string ''email'' \<mapsto> JString (js_string ''a@b.co''),
        js_string ''phone'' \<mapsto> JString (js_string ''x'')]"
  have vn: "isValid (fst (validateField (js_string ''name'') (get_property fd (js_string ''name'')) 0))"
    by (simp add: fd_def get_property_def validateField_name_trimmed trim_Jo Let_def)
  have ve: "isValid (fst (validateField (js_string ''email'') (get_property fd (js_string ''email'')) 0))"
    by (simp add: fd_def get_property_def validateField_email_verdict validateEmail_string
        trim_email_example match_email_example)
  have vm: "fst (validateField (js_string ''message'') (get_property fd (js_string ''message'')) 0) =
      \<lparr>isValid = False,
       errorMessage_of = JString (js_string ''Please enter a message (10-1000 characters)'')\<rparr>"
    by (simp add: fd_def get_property_def validateField_message_trimmed Let_def)
  from validateForm_aggregates_fields [of fd 0]
  have 1: "\<not> form_isValid (fst (validateForm fd 0))"
    and 2: "\<And>f. errors (fst (validateForm fd 0)) f =
      (if f \<in> {js_string ''name'', js_string ''email'', js_string ''message''} \<and>
          \<not> isValid (fst (validateField f (get_property fd f) 0))
       then Some (errorMessage_of (fst (validateField f (get_property fd f) 0))) else None)"
    unfolding Let_def using vm by auto
  have "errors (fst (validateForm fd 0)) =
     [js_string ''message'' \<mapsto> JString (js_string ''Please enter a message (10-1000 characters)'')]"
    by (rule ext) (use vn ve vm in \<open>auto simp: 2\<close>)
  with 1 show ?thesis unfolding fd_def by simp
qed

text \<open>
  Claim C8. \<^verbatim>\<open>validateEmail\<close>, \<^verbatim>\<open>validateField\<close> and \<^verbatim>\<open>validateForm\<close> are deterministic:
  two calls with identical arguments return equal results. The only state a call can
  read or write is the \<^verbatim>\<open>lastIndex\<close> of the email pattern, so the theorem says that a
  second call, made in the state the first call leaves, returns the same result, and
  more generally that the result is the same from any two values of \<^verbatim>\<open>lastIndex\<close>. (With
  the \<^verbatim>\<open>g\<close> flag this would fail: see \<open>global_flag_test_is_stateful\<close>.)
\<close>

theorem validators_deterministic:
  "fst (validateEmail x (snd (validateEmail x lastIndex))) = fst (validateEmail x lastIndex) \<and>
   fst (validateField fieldName v (snd (validateField fieldName v lastIndex))) =
     fst (validateField fieldName v lastIndex) \<and>
   fst (validateForm fd (snd (validateForm fd lastIndex))) = fst (validateForm fd lastIndex) \<and>
   fst (validateEmail x lastIndex) = fst (validateEmail x lastIndex') \<and>
   fst (validateField fieldName v lastIndex) = fst (validateField fieldName v lastIndex') \<and>
   fst (validateForm fd lastIndex) = fst (validateForm fd lastIndex')"
proof -
  have e: "fst (validateEmail x i) = fst (validateEmail x j)" for i j
    by (simp add: validateEmail_indep [of x i] validateEmail_indep [of x j])
  show ?thesis
    by (intro conjI e validateField_fst_indep validateForm_fst_indep)
qed

text \<open>
  Claim C10. The result of \<^verbatim>\<open>validateForm\<close> depends only on the values of \<^verbatim>\<open>formData\<close> at
  the keys \<^verbatim>\<open>name\<close>, \<^verbatim>\<open>email\<close> and \<^verbatim>\<open>message\<close>: two mappings that agree on these three
  keys (also by both lacking one) give equal results.
\<close>

theorem validateForm_reads_only_table_keys:
  assumes "\<forall>k\<in>{js_string ''name'', js_string ''email'', js_string ''message''}. fd1 k = fd2 k"
  shows "validateForm fd1 lastIndex = validateForm fd2 lastIndex"
proof -
  from assms have "\<forall>k\<in>set (map fst validationRules). fd1 k = fd2 k"
    by (simp add: validationRules_def)
  then show ?thesis
    unfolding validateForm_def by (rule validateForm_loop_cong)
qed

theorem validateForm_reads_only_table_keys_witness:
  "[js_string ''name'' \<mapsto> JString (js_string ''Jo''), js_string ''phone'' \<mapsto> JNull] (js_string ''name'') =
   [js_string ''name'' \<mapsto> JString (js_string ''Jo''), js_string ''extra'' \<mapsto> JBoolean True] (js_string ''name'') \<and>
   [js_string ''name'' \<mapsto> JString (js_string ''Jo''), js_string ''phone'' \<mapsto> JNull] (js_string ''email'') =
   [js_string ''name'' \<mapsto> JString (js_string ''Jo''), js_string ''extra'' \<mapsto> JBoolean True] (js_string ''email'') \<and>
   [js_string ''name'' \<mapsto> JString (js_string ''Jo''), js_string ''phone'' \<mapsto> JNull] (js_string ''message'') =
   [js_string ''name'' \<mapsto> JString (js_string ''Jo''), js_string ''extra'' \<mapsto> JBoolean True] (js_string ''message'') \<and>
   [js_string ''name'' \<mapsto> JString (js_string ''Jo''), js_string ''phone'' \<mapsto> JNull] (js_string ''phone'') \<noteq>
   [js_string ''name'' \<mapsto> JString (js_string ''Jo''), js_string ''extra'' \<mapsto> JBoolean True] (js_string ''phone'') \<and>
   validateForm [js_string ''name'' \<mapsto> JString (js_string ''Jo''), js_string ''phone'' \<mapsto> JNull] 0 =
   validateForm [js_string ''name'' \<mapsto> JString (js_string ''Jo''), js_string ''extra'' \<mapsto> JBoolean True] 0"
proof -
  have h: "\<forall>k\<in>{js_string ''name'', js_string ''email'', js_string ''message''}.
      [js_string ''name'' \<mapsto> JString (js_string ''Jo''), js_string ''phone'' \<mapsto> JNull] k =
      [js_string ''name'' \<mapsto> JString (js_string ''Jo''), js_string ''extra'' \<mapsto> JBoolean True] k"
    by simp
  have "validateForm [js_string ''name'' \<mapsto> JString (js_string ''Jo''), js_string ''phone'' \<mapsto> JNull] 0 =
        validateForm [js_string ''name'' \<mapsto> JString (js_string ''Jo''), js_string ''extra'' \<mapsto> JBoolean True] 0"
    by (rule validateForm_reads_only_table_keys [OF h])
  then show ?thesis by simp
qed

end
